theory Spec2Isabelle
  imports Complex_Main "HOL-Library.Word"
begin

section \<open>JavaScript strings and objects\<close>

text \<open>
  A JavaScript string is a sequence of 16-bit code units. String literals of the source
  are written \<open>js ''...''\<close>.
\<close>

type_synonym jschar = "16 word"
type_synonym jsstring = "jschar list"

definition js :: "string \<Rightarrow> jsstring" where
  "js s = map of_char s"

text \<open>
  The characters removed by \<open>String.prototype.trim\<close> and matched by the regular
  expression class \<open>\s\<close>: WhiteSpace and LineTerminator of ECMAScript.
\<close>

definition isWhiteSpace :: "jschar \<Rightarrow> bool" where
  "isWhiteSpace c \<longleftrightarrow>
     c \<in> {0x0009, 0x000A, 0x000B, 0x000C, 0x000D, 0x0020, 0x00A0, 0x1680,
          0x2028, 0x2029, 0x202F, 0x205F, 0x3000, 0xFEFF}
     \<or> (0x2000 \<le> c \<and> c \<le> 0x200A)"

definition trim :: "jsstring \<Rightarrow> jsstring" where
  "trim s = rev (dropWhile isWhiteSpace (rev (dropWhile isWhiteSpace s)))"

definition startsWith :: "jsstring \<Rightarrow> jsstring \<Rightarrow> bool" where
  "startsWith s p \<longleftrightarrow> take (length p) s = p"

text \<open>\<open>s.substring(n)\<close> and \<open>s.substring(0, n)\<close>.\<close>

definition substring_from :: "jsstring \<Rightarrow> nat \<Rightarrow> jsstring" where
  "substring_from s n = drop n s"

definition substring_to :: "jsstring \<Rightarrow> nat \<Rightarrow> jsstring" where
  "substring_to s n = take n s"

text \<open>\<open>s.split(c)\<close> for a separator of one character: never the empty array.\<close>

fun split_char :: "jschar \<Rightarrow> jsstring \<Rightarrow> jsstring list" where
  "split_char c [] = [[]]"
| "split_char c (x # xs) =
     (if x = c then [] # split_char c xs
      else (case split_char c xs of
              w # ws \<Rightarrow> (x # w) # ws
            | [] \<Rightarrow> [[x]]))"

text \<open>\<open>s.split(/\s+/)\<close>: the pieces between the maximal runs of white space.\<close>

function split_ws :: "jsstring \<Rightarrow> jsstring list" where
  "split_ws [] = [[]]"
| "split_ws (x # xs) =
     (if isWhiteSpace x then [] # split_ws (dropWhile isWhiteSpace xs)
      else (case split_ws xs of
              w # ws \<Rightarrow> (x # w) # ws
            | [] \<Rightarrow> [[x]]))"
  by pat_completeness auto
termination
  by (relation "measure length") (auto simp: le_imp_less_Suc length_dropWhile_le)

text \<open>
  Reading a property of an object literal, \<open>obj[key]\<close>: the literal's own entries first,
  then the members every plain object inherits from \<open>Object.prototype\<close>; a key found in
  neither gives \<open>undefined\<close> (\<open>None\<close>). An inherited member is a function or an object,
  recorded by its name.
\<close>

datatype 'a property = Own 'a | Inherited jsstring

definition object_prototype_keys :: "jsstring list" where
  "object_prototype_keys =
     [js ''constructor'', js ''hasOwnProperty'', js ''isPrototypeOf'',
      js ''propertyIsEnumerable'', js ''toLocaleString'', js ''toString'', js ''valueOf'',
      js ''__defineGetter__'', js ''__defineSetter__'', js ''__lookupGetter__'',
      js ''__lookupSetter__'', js ''__proto__'']"

definition obj_get :: "(jsstring \<times> 'a) list \<Rightarrow> jsstring \<Rightarrow> 'a property option" where
  "obj_get obj k =
     (case map_of obj k of
        Some v \<Rightarrow> Some (Own v)
      | None \<Rightarrow> if k \<in> set object_prototype_keys then Some (Inherited k) else None)"

text \<open>Truthiness of a string-valued property: the empty string is falsy, objects are truthy.\<close>

fun truthy_str :: "jsstring property \<Rightarrow> bool" where
  "truthy_str (Own s) \<longleftrightarrow> s \<noteq> []"
| "truthy_str (Inherited k) \<longleftrightarrow> True"

section \<open>music-sheet.ts: data structures\<close>

text \<open>
  The duration of a note is a double computed by \<open>parseInt(a) / parseInt(b)\<close> or
  by \<open>parseFloat(s)\<close>; it is kept as the expression that computes it.

  Three fields are renamed, their names being taken in Isabelle/HOL: \<open>measure\<close> of a
  Note is \<open>measureNum\<close>, \<open>notes\<close> of a Measure is \<open>noteList\<close>, and
  \<open>timeSignature\<close> of a Measure is \<open>measureTimeSignature\<close>.
\<close>

datatype duration =
    Quarter
  | IntQuotient jsstring jsstring
  | FloatOf jsstring

record Note =
  pitch :: "jsstring property"
  duration :: duration
  measureNum :: nat
  index :: nat

record Measure =
  number :: nat
  noteList :: "Note list"
  measureTimeSignature :: "jsstring option"

record MusicSheet =
  title :: jsstring
  composer :: "jsstring option"
  key :: jsstring
  timeSignature :: jsstring
  measures :: "Measure list"
  allNotes :: "Note list"

section \<open>music-sheet.ts: parseNote\<close>

definition noteMap :: "(jsstring \<times> jsstring) list" where
  "noteMap =
     [(js ''C'', js ''C4''), (js ''D'', js ''D4''), (js ''E'', js ''E4''), (js ''F'', js ''F4''),
      (js ''G'', js ''G4''), (js ''A'', js ''A4''), (js ''B'', js ''B4''),
      (js ''c'', js ''C5''), (js ''d'', js ''D5''), (js ''e'', js ''E5''), (js ''f'', js ''F5''),
      (js ''g'', js ''G5''), (js ''a'', js ''A5''), (js ''b'', js ''B5''),
      (js ''^C'', js ''C#4''), (js ''^D'', js ''D#4''), (js ''^F'', js ''F#4''),
      (js ''^G'', js ''G#4''), (js ''^A'', js ''A#4''),
      (js ''^c'', js ''C#5''), (js ''^d'', js ''D#5''), (js ''^f'', js ''F#5''),
      (js ''^g'', js ''G#5''), (js ''^a'', js ''A#5''),
      (js ''_D'', js ''D4''), (js ''_E'', js ''E4''), (js ''_G'', js ''G4''),
      (js ''_A'', js ''A4''), (js ''_B'', js ''B4''),
      (js ''_d'', js ''D5''), (js ''_e'', js ''E5''), (js ''_g'', js ''G5''),
      (js ''_a'', js ''A5''), (js ''_b'', js ''B5'')]"

text \<open>The character class \<open>[0-9/.]\<close>.\<close>

definition durationChar :: "jschar \<Rightarrow> bool" where
  "durationChar c \<longleftrightarrow> (0x30 \<le> c \<and> c \<le> 0x39) \<or> c = 0x2F \<or> c = 0x2E"

text \<open>
  \<open>token.match(/([0-9/.]+)$/)\<close>: the leftmost match is the longest run of class
  characters that ends the token; there is no match when that run is empty.
\<close>

definition durationMatch :: "jsstring \<Rightarrow> jsstring option" where
  "durationMatch token =
     (let m = rev (takeWhile durationChar (rev token))
      in if m = [] then None else Some m)"

text \<open>
  \<open>parts[1]\<close> exists whenever the string includes a slash; reading it from a shorter
  array would give \<open>undefined\<close>, which \<open>parseInt\<close> reads as the string "undefined".
\<close>

definition durationOf :: "jsstring \<Rightarrow> duration" where
  "durationOf durationStr =
     (if 0x2F \<in> set durationStr then
        (case split_char 0x2F durationStr of
           a # b # _ \<Rightarrow> IntQuotient a b
         | [a] \<Rightarrow> IntQuotient a (js ''undefined'')
         | [] \<Rightarrow> IntQuotient (js ''undefined'') (js ''undefined''))
      else FloatOf durationStr)"

text \<open>The note letter and the duration that \<open>parseNote\<close> extracts from a token.\<close>

definition splitDuration :: "jsstring \<Rightarrow> jsstring \<times> duration" where
  "splitDuration token =
     (case durationMatch token of
        None \<Rightarrow> (token, Quarter)
      | Some durationStr \<Rightarrow>
          (substring_to token (length token - length durationStr), durationOf durationStr))"

definition parseNote :: "jsstring \<Rightarrow> nat \<Rightarrow> nat \<Rightarrow> Note option" where
  "parseNote token measureNo noteIndex =
     (let (noteLetter, dur) = splitDuration token
      in case obj_get noteMap noteLetter of
           None \<Rightarrow> None
         | Some p \<Rightarrow>
             if \<not> truthy_str p then None
             else Some \<lparr>pitch = p, duration = dur, measureNum = measureNo, index = noteIndex\<rparr>)"

section \<open>music-sheet.ts: parseABCNotation\<close>

text \<open>
  One pass of the loop over the lines. The state is the metadata object and the note
  string.
\<close>

definition scanLine ::
  "(jsstring \<rightharpoonup> jsstring) \<times> jsstring \<Rightarrow> jsstring \<Rightarrow> (jsstring \<rightharpoonup> jsstring) \<times> jsstring" where
  "scanLine st line =
     (let (metadata, noteString) = st; trimmed = trim line in
      if startsWith trimmed (js ''T:'') then
        (metadata(js ''title'' \<mapsto> trim (substring_from trimmed 2)), noteString)
      else if startsWith trimmed (js ''C:'') then
        (metadata(js ''composer'' \<mapsto> trim (substring_from trimmed 2)), noteString)
      else if startsWith trimmed (js ''K:'') then
        (metadata(js ''key'' \<mapsto> trim (substring_from trimmed 2)), noteString)
      else if startsWith trimmed (js ''M:'') then
        (metadata(js ''timeSignature'' \<mapsto> trim (substring_from trimmed 2)), noteString)
      else if trimmed \<noteq> [] \<and> \<not> startsWith trimmed (js ''%'') then
        (metadata, noteString @ js '' '' @ trimmed)
      else (metadata, noteString))"

text \<open>\<open>metadata.field || dflt\<close>: an absent or empty field gives the default.\<close>

definition or_default :: "jsstring option \<Rightarrow> jsstring \<Rightarrow> jsstring" where
  "or_default v dflt = (case v of None \<Rightarrow> dflt | Some s \<Rightarrow> if s = [] then dflt else s)"

text \<open>
  The loop over the tokens of one measure. The state is \<open>measureNotes\<close>, \<open>allNotesAcc\<close>
  and \<open>noteIndex\<close>.
\<close>

fun parseTokens ::
  "jsstring list \<Rightarrow> nat \<Rightarrow> Note list \<times> Note list \<times> nat \<Rightarrow> Note list \<times> Note list \<times> nat" where
  "parseTokens [] measureNo st = st"
| "parseTokens (token # rest) measureNo (measureNotes, allNotesAcc, noteIndex) =
     (if token = [] then parseTokens rest measureNo (measureNotes, allNotesAcc, noteIndex)
      else (case parseNote token measureNo noteIndex of
              None \<Rightarrow> parseTokens rest measureNo (measureNotes, allNotesAcc, noteIndex)
            | Some note \<Rightarrow>
                parseTokens rest measureNo
                  (measureNotes @ [note], allNotesAcc @ [note], noteIndex + 1)))"

text \<open>
  The \<open>forEach\<close> over the measure strings, \<open>measureNo\<close> being the position in the
  array. The state is \<open>measuresAcc\<close>, \<open>allNotesAcc\<close> and \<open>noteIndex\<close>.
\<close>

fun parseMeasures ::
  "jsstring list \<Rightarrow> nat \<Rightarrow> jsstring \<Rightarrow> Measure list \<times> Note list \<times> nat
     \<Rightarrow> Measure list \<times> Note list \<times> nat" where
  "parseMeasures [] measureNo ts st = st"
| "parseMeasures (measureStr # rest) measureNo ts (measuresAcc, allNotesAcc, noteIndex) =
     (let noteTokens = split_ws (trim measureStr);
          (measureNotes, allNotesAcc', noteIndex') =
             parseTokens noteTokens measureNo ([], allNotesAcc, noteIndex);
          measuresAcc' =
             (if length measureNotes > 0 then
                measuresAcc @ [\<lparr>number = measureNo, noteList = measureNotes,
                             measureTimeSignature = (if measureNo = 0 then Some ts else None)\<rparr>]
              else measuresAcc)
      in parseMeasures rest (measureNo + 1) ts (measuresAcc', allNotesAcc', noteIndex'))"

definition measureStrings :: "jsstring \<Rightarrow> jsstring list" where
  "measureStrings noteString = filter (\<lambda>m. trim m \<noteq> []) (split_char 0x7C noteString)"

text \<open>The loop over the lines of the trimmed input.\<close>

definition scanLines :: "jsstring \<Rightarrow> (jsstring \<rightharpoonup> jsstring) \<times> jsstring" where
  "scanLines abcString = foldl scanLine (Map.empty, []) (split_char 0x0A (trim abcString))"

definition parseABCNotation :: "jsstring \<Rightarrow> MusicSheet" where
  "parseABCNotation abcString =
     (let (metadata, noteString) = scanLines abcString;
          title' = or_default (metadata (js ''title'')) (js ''Untitled'');
          key' = or_default (metadata (js ''key'')) (js ''C'');
          timeSignature' = or_default (metadata (js ''timeSignature'')) (js ''4/4'');
          (measures', allNotes', noteIndex) =
             parseMeasures (measureStrings noteString) 0 timeSignature' ([], [], 0)
      in \<lparr>title = title', composer = metadata (js ''composer''), key = key',
          timeSignature = timeSignature', measures = measures', allNotes = allNotes'\<rparr>)"

definition nl :: jsstring where
  "nl = [0x0A]"

definition sampleSheets :: "(jsstring \<times> jsstring) list" where
  "sampleSheets =
     [(js ''twinkle-twinkle'',
         js ''T:Twinkle Twinkle Little Star'' @ nl @
         js ''C:Traditional'' @ nl @
         js ''M:4/4'' @ nl @
         js ''K:C'' @ nl @
         js ''C C G G | A A G2 | F F E E | D D C2 |'' @ nl @
         js ''G G F F | E E D2 | G G F F | E E D2 |'' @ nl @
         js ''C C G G | A A G2 | F F E E | D D C2 |''),
      (js ''ode-to-joy'',
         js ''T:Ode to Joy (simplified)'' @ nl @
         js ''C:Beethoven'' @ nl @
         js ''M:4/4'' @ nl @
         js ''K:C'' @ nl @
         js ''E E F G | G F E D | C C D E | E D D2 |'' @ nl @
         js ''E E F G | G F E D | C C D E | D C C2 |''),
      (js ''mary-lamb'',
         js ''T:Mary Had a Little Lamb'' @ nl @
         js ''C:Traditional'' @ nl @
         js ''M:4/4'' @ nl @
         js ''K:C'' @ nl @
         js ''E D C D | E E E2 | D D D2 | E G G2 |'' @ nl @
         js ''E D C D | E E E E | D D E D | C2 C2 |''),
      (js ''simple-scale'',
         js ''T:Simple G Major Scale'' @ nl @
         js ''C:Exercise'' @ nl @
         js ''M:4/4'' @ nl @
         js ''K:G'' @ nl @
         js ''G A B c | d e ^f g | g ^f e d | c B A G |'')]"

section \<open>JavaScript numbers that hold integers\<close>

text \<open>
  The note index, the bookmark and the octave are doubles holding integers; they are
  modelled as unbounded integers. \<open>xs[i]\<close> is \<open>undefined\<close> outside the array.
\<close>

definition at_index :: "'a list \<Rightarrow> int \<Rightarrow> 'a option" where
  "at_index xs i = (if 0 \<le> i \<and> i < int (length xs) then Some (xs ! nat i) else None)"

text \<open>
  \<open>n.toString()\<close> of an integer, in decimal. (JavaScript changes to exponent notation
  from \<open>10^21\<close> on, far above the note indices and octaves of the source.)
\<close>

fun digitsOf :: "nat \<Rightarrow> jsstring" where
  "digitsOf n =
     (if n < 10 then [of_nat (48 + n)]
      else digitsOf (n div 10) @ [of_nat (48 + n mod 10)])"

declare digitsOf.simps [simp del]

definition toString :: "int \<Rightarrow> jsstring" where
  "toString i = (if i < 0 then 0x2D # digitsOf (nat (- i)) else digitsOf (nat i))"

text \<open>
  \<open>parseInt(s, 10)\<close>: leading white space is skipped, then an optional sign, then the
  longest run of decimal digits; \<open>NaN\<close> (\<open>None\<close>) when that run is empty.
\<close>

definition isDigit :: "jschar \<Rightarrow> bool" where
  "isDigit c \<longleftrightarrow> 0x30 \<le> c \<and> c \<le> 0x39"

definition digitsValue :: "jsstring \<Rightarrow> int" where
  "digitsValue ds = foldl (\<lambda>a d. 10 * a + (uint d - 48)) 0 ds"

definition parseInt10 :: "jsstring \<Rightarrow> int option" where
  "parseInt10 s =
     (let S = dropWhile isWhiteSpace s;
          (sign, S') =
             (case S of
                [] \<Rightarrow> (1, S)
              | c # r \<Rightarrow> if c = 0x2D then (- 1, r) else if c = 0x2B then (1, r) else (1, S));
          Z = takeWhile isDigit S'
      in if Z = [] then None else Some (sign * digitsValue Z))"

section \<open>music-sheet-display.ts: the navigation component\<close>

datatype error = TypeError

record Display =
  sheet :: "MusicSheet option"
  currentNoteIndex :: int
  bookmark :: int
  selectedSheet :: jsstring
  localStorage :: "jsstring \<rightharpoonup> jsstring"

definition bookmarkKey :: jsstring where
  "bookmarkKey = js ''violin-companion-bookmark''"

definition loadBookmark :: "Display \<Rightarrow> Display" where
  "loadBookmark st =
     (case localStorage st bookmarkKey of
        None \<Rightarrow> st
      | Some saved \<Rightarrow>
          if saved = [] then st
          else st\<lparr>bookmark :=
                    (case parseInt10 saved of
                       None \<Rightarrow> 0
                     | Some n \<Rightarrow> if n = 0 then 0 else n)\<rparr>)"

definition saveBookmark :: "Display \<Rightarrow> Display" where
  "saveBookmark st =
     st\<lparr>localStorage := (localStorage st)(bookmarkKey \<mapsto> toString (bookmark st))\<rparr>"

text \<open>
  \<open>loadSheet\<close> reads the module's table \<open>sampleSheets\<close>, here the first argument. A
  name that reaches a member inherited from \<open>Object.prototype\<close> passes the test
  \<open>if (abcNotation)\<close> and fails in \<open>abcString.trim()\<close> with a TypeError.
\<close>

definition loadSheet ::
  "(jsstring \<times> jsstring) list \<Rightarrow> jsstring \<Rightarrow> Display \<Rightarrow> error + Display" where
  "loadSheet sheets sheetName st =
     (case obj_get sheets sheetName of
        None \<Rightarrow> Inr st
      | Some (Inherited k) \<Rightarrow> Inl TypeError
      | Some (Own abcNotation) \<Rightarrow>
          if abcNotation = [] then Inr st
          else
            (let sh = parseABCNotation abcNotation;
                 st1 = st\<lparr>sheet := Some sh, selectedSheet := sheetName\<rparr>;
                 st2 = (if bookmark st1 \<ge> int (length (allNotes sh))
                        then saveBookmark (st1\<lparr>bookmark := 0\<rparr>)
                        else st1)
             in Inr (st2\<lparr>currentNoteIndex := bookmark st2\<rparr>)))"

definition connectedCallback :: "Display \<Rightarrow> error + Display" where
  "connectedCallback st =
     (let st' = loadBookmark st in loadSheet sampleSheets (selectedSheet st') st')"

definition setBookmark :: "Display \<Rightarrow> Display" where
  "setBookmark st = saveBookmark (st\<lparr>bookmark := currentNoteIndex st\<rparr>)"

definition goToBookmark :: "Display \<Rightarrow> Display" where
  "goToBookmark st = st\<lparr>currentNoteIndex := bookmark st\<rparr>"

definition reset :: "Display \<Rightarrow> Display" where
  "reset st = st\<lparr>currentNoteIndex := 0\<rparr>"

definition previousNote :: "Display \<Rightarrow> Display" where
  "previousNote st =
     (if currentNoteIndex st > 0 then st\<lparr>currentNoteIndex := currentNoteIndex st - 1\<rparr>
      else st)"

definition nextNote :: "Display \<Rightarrow> Display" where
  "nextNote st =
     (case sheet st of
        None \<Rightarrow> st
      | Some sh \<Rightarrow>
          if currentNoteIndex st < int (length (allNotes sh)) - 1
          then st\<lparr>currentNoteIndex := currentNoteIndex st + 1\<rparr>
          else st)"

text \<open>
  The inner loop of \<open>previousMeasure\<close>: \<open>j\<close> runs down from \<open>i\<close> while the notes
  are in the target measure; the result is the note index it leaves.
\<close>

function firstOfMeasure :: "Note list \<Rightarrow> nat \<Rightarrow> int \<Rightarrow> int \<Rightarrow> int" where
  "firstOfMeasure ns targetMeasure j cur =
     (if j \<ge> 0 then
        (if measureNum (ns ! nat j) = targetMeasure
         then firstOfMeasure ns targetMeasure (j - 1) j
         else cur)
      else cur)"
  by pat_completeness auto
termination
  by (relation "measure (\<lambda>(ns, targetMeasure, j, cur). nat (j + 1))") auto

declare firstOfMeasure.simps [simp del]

text \<open>
  The outer loop of \<open>previousMeasure\<close>: \<open>i\<close> runs down from the note before the
  current one; when no note of an earlier measure is found the note index becomes 0.
\<close>

function previousMeasureLoop :: "Note list \<Rightarrow> nat \<Rightarrow> int \<Rightarrow> int \<Rightarrow> int" where
  "previousMeasureLoop ns currentMeasure i cur =
     (if i \<ge> 0 then
        (if measureNum (ns ! nat i) < currentMeasure
         then firstOfMeasure ns (measureNum (ns ! nat i)) i cur
         else previousMeasureLoop ns currentMeasure (i - 1) cur)
      else 0)"
  by pat_completeness auto
termination
  by (relation "measure (\<lambda>(ns, currentMeasure, i, cur). nat (i + 1))") auto

declare previousMeasureLoop.simps [simp del]

definition previousMeasure :: "Display \<Rightarrow> Display" where
  "previousMeasure st =
     (case sheet st of
        None \<Rightarrow> st
      | Some sh \<Rightarrow>
          (case at_index (allNotes sh) (currentNoteIndex st) of
             None \<Rightarrow> st
           | Some n \<Rightarrow>
               st\<lparr>currentNoteIndex :=
                    previousMeasureLoop (allNotes sh) (measureNum n)
                      (currentNoteIndex st - 1) (currentNoteIndex st)\<rparr>))"

text \<open>The loop of \<open>nextMeasure\<close>: \<open>i\<close> runs up from the note after the current one.\<close>

function nextMeasureLoop :: "Note list \<Rightarrow> nat \<Rightarrow> int \<Rightarrow> int \<Rightarrow> int" where
  "nextMeasureLoop ns currentMeasure i cur =
     (if i < int (length ns) then
        (if measureNum (ns ! nat i) > currentMeasure then i
         else nextMeasureLoop ns currentMeasure (i + 1) cur)
      else cur)"
  by pat_completeness auto
termination
  by (relation "measure (\<lambda>(ns, currentMeasure, i, cur). nat (int (length ns) - i))") auto

declare nextMeasureLoop.simps [simp del]

definition nextMeasure :: "Display \<Rightarrow> Display" where
  "nextMeasure st =
     (case sheet st of
        None \<Rightarrow> st
      | Some sh \<Rightarrow>
          (case at_index (allNotes sh) (currentNoteIndex st) of
             None \<Rightarrow> st
           | Some n \<Rightarrow>
               st\<lparr>currentNoteIndex :=
                    nextMeasureLoop (allNotes sh) (measureNum n)
                      (currentNoteIndex st + 1) (currentNoteIndex st)\<rparr>))"

definition getCurrentNote :: "Display \<Rightarrow> Note option" where
  "getCurrentNote st =
     (case sheet st of
        None \<Rightarrow> None
      | Some sh \<Rightarrow> at_index (allNotes sh) (currentNoteIndex st))"

definition checkNote :: "jsstring \<Rightarrow> Display \<Rightarrow> bool \<times> Display" where
  "checkNote detectedNote st =
     (case getCurrentNote st of
        None \<Rightarrow> (False, st)
      | Some currentNote \<Rightarrow>
          if Own detectedNote = pitch currentNote then (True, nextNote st)
          else (False, st))"

section \<open>violin-companion.ts: note naming and tuning\<close>

text \<open>
  Frequencies and cents are doubles; they are modelled as real numbers, without
  rounding. \<open>Math.log2(x)\<close> is \<open>NaN\<close> or \<open>-Infinity\<close> for \<open>x \<le> 0\<close> (\<open>None\<close>);
  every later operation of the source keeps such a value non-finite.
\<close>

definition Math_log2 :: "real \<Rightarrow> real option" where
  "Math_log2 x = (if x > 0 then Some (log 2 x) else None)"



definition noteFrequencies :: "(jsstring \<times> real) list" where
  "noteFrequencies =
     [(js ''G3'', 196.00), (js ''G#3'', 207.65), (js ''A3'', 220.00), (js ''A#3'', 233.08),
      (js ''B3'', 246.94), (js ''C4'', 261.63), (js ''C#4'', 277.18), (js ''D4'', 293.66),
      (js ''D#4'', 311.13), (js ''E4'', 329.63), (js ''F4'', 349.23), (js ''F#4'', 369.99),
      (js ''G4'', 392.00), (js ''G#4'', 415.30), (js ''A4'', 440.00), (js ''A#4'', 466.16),
      (js ''B4'', 493.88), (js ''C5'', 523.25), (js ''C#5'', 554.37), (js ''D5'', 587.33),
      (js ''D#5'', 622.25), (js ''E5'', 659.25), (js ''F5'', 698.46), (js ''F#5'', 739.99),
      (js ''G5'', 783.99), (js ''G#5'', 830.61), (js ''A5'', 880.00)]"

record Companion =
  isListening :: bool
  currentNote :: jsstring
  currentFrequency :: real
  clarity :: real
  targetNote :: jsstring
  inTune :: bool



text \<open>
  \<open>checkTuning\<close>: a target found in the table gives its frequency, which is truthy
  unless zero. A target that names a member inherited from \<open>Object.prototype\<close> is
  truthy too; dividing by it gives \<open>NaN\<close>, and \<open>Math.abs(NaN) < 10\<close> is false.
\<close>

definition checkTuning :: "real \<Rightarrow> Companion \<Rightarrow> Companion" where
  "checkTuning frequency st =
     (case obj_get noteFrequencies (targetNote st) of
        None \<Rightarrow> st
      | Some (Own targetFreq) \<Rightarrow>
          if targetFreq = 0 then st
          else
            (case Math_log2 (frequency / targetFreq) of
               None \<Rightarrow> st\<lparr>inTune := False\<rparr>
             | Some l \<Rightarrow> st\<lparr>inTune := (\<bar>1200 * l\<bar> < 10)\<rparr>)
      | Some (Inherited k) \<Rightarrow> st\<lparr>inTune := False\<rparr>)"

definition setTargetNote :: "jsstring \<Rightarrow> Companion \<Rightarrow> Companion" where
  "setTargetNote note st =
     (let st' = st\<lparr>targetNote := note\<rparr>
      in if currentFrequency st' > 0 then checkTuning (currentFrequency st') st' else st')"

section \<open>Vocabulary of the properties\<close>

text \<open>The measure strings of an input, and the tokens of a measure string.\<close>

definition segmentsOf :: "jsstring \<Rightarrow> jsstring list" where
  "segmentsOf abcString = measureStrings (snd (scanLines abcString))"

definition tokensOf :: "jsstring \<Rightarrow> jsstring list" where
  "tokensOf measureStr = split_ws (trim measureStr)"

text \<open>
  The pitch a token is parsed to, if any: the measure number and the note index handed
  to \<open>parseNote\<close> have no part in it.
\<close>

definition tokenPitch :: "jsstring \<Rightarrow> jsstring property option" where
  "tokenPitch token = (if token = [] then None else map_option pitch (parseNote token 0 0))"

definition recognizedCount :: "jsstring \<Rightarrow> nat" where
  "recognizedCount measureStr = length (filter (\<lambda>t. tokenPitch t \<noteq> None) (tokensOf measureStr))"

text \<open>A call of \<open>previousNote()\<close> or of \<open>nextNote()\<close>, and a sequence of such calls.\<close>

datatype noteStep = PreviousNote | NextNote

fun callNoteStep :: "noteStep \<Rightarrow> Display \<Rightarrow> Display" where
  "callNoteStep PreviousNote st = previousNote st"
| "callNoteStep NextNote st = nextNote st"

definition callNoteSteps :: "noteStep list \<Rightarrow> Display \<Rightarrow> Display" where
  "callNoteSteps steps st = foldl (\<lambda>s a. callNoteStep a s) st steps"

text \<open>The measure numbers below \<open>M\<close> that occur among the notes.\<close>

definition measuresBefore :: "Note list \<Rightarrow> nat \<Rightarrow> nat set" where
  "measuresBefore ns M = set (filter (\<lambda>m. m < M) (map measureNum ns))"

text \<open>
  The natural pitch of a note letter: the letter itself in octave 4 when it is upper
  case, its upper-case form in octave 5 when it is lower case.
\<close>

definition naturalPitch :: "jschar \<Rightarrow> jsstring" where
  "naturalPitch letter =
     (if letter \<in> set (js ''CDEFGAB'') then [letter] @ js ''4''
      else [letter - 0x20] @ js ''5'')"

section \<open>Evaluation of the parser on literals\<close>

lemmas parser_defs = parseABCNotation_def scanLines_def scanLine_def measureStrings_def
  segmentsOf_def tokensOf_def tokenPitch_def recognizedCount_def
  parseNote_def splitDuration_def durationMatch_def durationOf_def obj_get_def noteMap_def
  object_prototype_keys_def trim_def startsWith_def substring_from_def substring_to_def
  isWhiteSpace_def durationChar_def or_default_def js_def nl_def Let_def

section \<open>The parser: what its two iterations build\<close>

lemma parseNote_Some:
  assumes "parseNote t m i = Some n"
  shows "measureNum n = m" "index n = i" "parseNote t 0 0 = Some (n\<lparr>measureNum := 0, index := 0\<rparr>)"
  using assms by (auto simp: parseNote_def Let_def split: prod.splits option.splits if_splits)

lemma parseNote_None: "parseNote t m i = None \<Longrightarrow> parseNote t 0 0 = None"
  by (auto simp: parseNote_def Let_def split: prod.splits option.splits if_splits)

lemma tokenPitch_Some: "t \<noteq> [] \<Longrightarrow> parseNote t m i = Some n \<Longrightarrow> tokenPitch t = Some (pitch n)"
  by (simp add: tokenPitch_def parseNote_Some(3))

lemma tokenPitch_None: "parseNote t m i = None \<Longrightarrow> tokenPitch t = None"
  by (simp add: tokenPitch_def parseNote_None)

lemma tokenPitch_empty: "tokenPitch [] = None"
  by (simp add: tokenPitch_def)

lemma parseTokens_result:
  "\<exists>ns. parseTokens toks m (mn, an, k) = (mn @ ns, an @ ns, k + length ns)
        \<and> map index ns = [k..<k + length ns]
        \<and> map measureNum ns = replicate (length ns) m
        \<and> map pitch ns = List.map_filter tokenPitch toks"
proof (induction toks arbitrary: mn an k)
  case Nil
  then show ?case by (simp add: map_filter_simps)
next
  case (Cons t toks)
  show ?case
  proof (cases "t = []")
    case True
    with Cons.IH [of mn an k] show ?thesis
      by (simp add: map_filter_simps tokenPitch_empty)
  next
    case ne: False
    show ?thesis
    proof (cases "parseNote t m k")
      case None
      with ne Cons.IH [of mn an k] show ?thesis
        by (simp add: map_filter_simps tokenPitch_None)
    next
      case (Some n)
      from Cons.IH [of "mn @ [n]" "an @ [n]" "k + 1"]
      obtain ns where ns:
        "parseTokens toks m (mn @ [n], an @ [n], k + 1) = (mn @ [n] @ ns, an @ [n] @ ns, k + 1 + length ns)"
        "map index ns = [k + 1..<k + 1 + length ns]"
        "map measureNum ns = replicate (length ns) m"
        "map pitch ns = List.map_filter tokenPitch toks"
        by auto
      have "parseTokens (t # toks) m (mn, an, k) = (mn @ (n # ns), an @ (n # ns), k + length (n # ns))"
        using ne Some ns(1) by simp
      moreover have "map index (n # ns) = [k..<k + length (n # ns)]"
        using ns(2) parseNote_Some(2) [OF Some] by (simp add: upt_rec)
      moreover have "map measureNum (n # ns) = replicate (length (n # ns)) m"
        using ns(3) parseNote_Some(1) [OF Some] by simp
      moreover have "map pitch (n # ns) = List.map_filter tokenPitch (t # toks)"
        using ns(4) tokenPitch_Some [OF ne Some] by (simp add: map_filter_simps)
      ultimately show ?thesis by blast
    qed
  qed
qed


lemma parseMeasures_result:
  "\<exists>ms ns. parseMeasures segs m ts (macc, an, k) = (macc @ ms, an @ ns, k + length ns)
      \<and> concat (map noteList ms) = ns
      \<and> map index ns = [k..<k + length ns]
      \<and> map pitch ns = List.map_filter tokenPitch (concat (map tokensOf segs))
      \<and> map measureNum ns =
            concat (map (\<lambda>(i, seg). replicate (recognizedCount seg) i) (enumerate m segs))
      \<and> map number ms =
            map fst (filter (\<lambda>(i, seg). recognizedCount seg \<noteq> 0) (enumerate m segs))"
proof (induction segs arbitrary: m macc an k)
  case Nil
  then show ?case by (simp add: map_filter_simps)
next
  case (Cons seg segs)
  obtain ns1 where ns1:
    "parseTokens (split_ws (trim seg)) m ([], an, k) = ([] @ ns1, an @ ns1, k + length ns1)"
    "map index ns1 = [k..<k + length ns1]"
    "map measureNum ns1 = replicate (length ns1) m"
    "map pitch ns1 = List.map_filter tokenPitch (split_ws (trim seg))"
    using parseTokens_result [of "split_ws (trim seg)" m "[]" an k] by blast
  have cnt: "recognizedCount seg = length ns1"
  proof -
    have "length (map pitch ns1) = length (List.map_filter tokenPitch (tokensOf seg))"
      using ns1(4) by (simp add: tokensOf_def)
    then show ?thesis
      by (simp add: recognizedCount_def map_filter_def)
  qed
  define m1 where "m1 = \<lparr>number = m, noteList = ns1,
                      measureTimeSignature = (if m = 0 then Some ts else None)\<rparr>"
  define macc' where "macc' = (if length ns1 > 0 then macc @ [m1] else macc)"
  define ms1 where "ms1 = (if length ns1 > 0 then [m1] else [])"
  have macc': "macc' = macc @ ms1" by (simp add: macc'_def ms1_def)
  have step: "parseMeasures (seg # segs) m ts (macc, an, k)
               = parseMeasures segs (m + 1) ts (macc', an @ ns1, k + length ns1)"
    using ns1(1) by (simp add: macc'_def m1_def)
  from Cons.IH [of "m + 1" macc' "an @ ns1" "k + length ns1"]
  obtain ms ns where r:
    "parseMeasures segs (m + 1) ts (macc', an @ ns1, k + length ns1)
       = (macc' @ ms, (an @ ns1) @ ns, k + length ns1 + length ns)"
    "concat (map noteList ms) = ns"
    "map index ns = [k + length ns1..<k + length ns1 + length ns]"
    "map pitch ns = List.map_filter tokenPitch (concat (map tokensOf segs))"
    "map measureNum ns =
       concat (map (\<lambda>(i, seg). replicate (recognizedCount seg) i) (enumerate (m + 1) segs))"
    "map number ms =
       map fst (filter (\<lambda>(i, seg). recognizedCount seg \<noteq> 0) (enumerate (m + 1) segs))"
    by blast
  have a: "parseMeasures (seg # segs) m ts (macc, an, k)
             = (macc @ (ms1 @ ms), an @ (ns1 @ ns), k + length (ns1 @ ns))"
    using step r(1) macc' by (simp add: add.assoc)
  have b: "concat (map noteList (ms1 @ ms)) = ns1 @ ns"
    using r(2) by (simp add: ms1_def m1_def)
  have c: "map index (ns1 @ ns) = [k..<k + length (ns1 @ ns)]"
  proof -
    have "[k..<k + length ns1 + length ns] = [k..<k + length ns1] @ [k + length ns1..<k + length ns1 + length ns]"
      by (metis le_add1 upt_add_eq_append)
    then show ?thesis using ns1(2) r(3) by (simp add: add.assoc)
  qed
  have d: "map pitch (ns1 @ ns) = List.map_filter tokenPitch (concat (map tokensOf (seg # segs)))"
    using ns1(4) r(4) by (simp add: tokensOf_def map_filter_def)
  have e: "map measureNum (ns1 @ ns) =
             concat (map (\<lambda>(i, seg). replicate (recognizedCount seg) i) (enumerate m (seg # segs)))"
    using ns1(3) r(5) cnt by simp
  have f: "map number (ms1 @ ms) =
             map fst (filter (\<lambda>(i, seg). recognizedCount seg \<noteq> 0) (enumerate m (seg # segs)))"
    using r(6) cnt by (simp add: ms1_def m1_def)
  from a b c d e f show ?case by blast
qed


lemma parseABCNotation_parseMeasures:
  "measures (parseABCNotation t) =
     fst (parseMeasures (segmentsOf t) 0 (timeSignature (parseABCNotation t)) ([], [], 0))"
  "allNotes (parseABCNotation t) =
     fst (snd (parseMeasures (segmentsOf t) 0 (timeSignature (parseABCNotation t)) ([], [], 0)))"
  by (simp_all add: parseABCNotation_def segmentsOf_def Let_def split: prod.splits)

lemma parseABCNotation_shape:
  "concat (map noteList (measures (parseABCNotation t))) = allNotes (parseABCNotation t)"
  "map index (allNotes (parseABCNotation t)) = [0..<length (allNotes (parseABCNotation t))]"
  "map pitch (allNotes (parseABCNotation t)) =
     List.map_filter tokenPitch (concat (map tokensOf (segmentsOf t)))"
  "map measureNum (allNotes (parseABCNotation t)) =
     concat (map (\<lambda>(i, seg). replicate (recognizedCount seg) i) (enumerate 0 (segmentsOf t)))"
  "map number (measures (parseABCNotation t)) =
     map fst (filter (\<lambda>(i, seg). recognizedCount seg \<noteq> 0) (enumerate 0 (segmentsOf t)))"
proof -
  define ts where "ts = timeSignature (parseABCNotation t)"
  have ts:
    "measures (parseABCNotation t) = fst (parseMeasures (segmentsOf t) 0 ts ([], [], 0))"
    "allNotes (parseABCNotation t) = fst (snd (parseMeasures (segmentsOf t) 0 ts ([], [], 0)))"
    unfolding ts_def by (rule parseABCNotation_parseMeasures)+
  obtain ms ns where r:
    "parseMeasures (segmentsOf t) 0 ts ([], [], 0) = ([] @ ms, [] @ ns, 0 + length ns)"
    "concat (map noteList ms) = ns"
    "map index ns = [0..<0 + length ns]"
    "map pitch ns = List.map_filter tokenPitch (concat (map tokensOf (segmentsOf t)))"
    "map measureNum ns =
       concat (map (\<lambda>(i, seg). replicate (recognizedCount seg) i) (enumerate 0 (segmentsOf t)))"
    "map number ms =
       map fst (filter (\<lambda>(i, seg). recognizedCount seg \<noteq> 0) (enumerate 0 (segmentsOf t)))"
    using parseMeasures_result [of "segmentsOf t" 0 ts "[]" "[]" 0] by blast
  have m: "measures (parseABCNotation t) = ms" and a: "allNotes (parseABCNotation t) = ns"
    using ts r(1) by simp_all
  show "concat (map noteList (measures (parseABCNotation t))) = allNotes (parseABCNotation t)"
    using r(2) m a by simp
  show "map index (allNotes (parseABCNotation t)) = [0..<length (allNotes (parseABCNotation t))]"
    using r(3) a by simp
  show "map pitch (allNotes (parseABCNotation t)) =
     List.map_filter tokenPitch (concat (map tokensOf (segmentsOf t)))"
    using r(4) a by simp
  show "map measureNum (allNotes (parseABCNotation t)) =
     concat (map (\<lambda>(i, seg). replicate (recognizedCount seg) i) (enumerate 0 (segmentsOf t)))"
    using r(5) a by simp
  show "map number (measures (parseABCNotation t)) =
     map fst (filter (\<lambda>(i, seg). recognizedCount seg \<noteq> 0) (enumerate 0 (segmentsOf t)))"
    using r(6) m by simp
qed

lemma index_is_position:
  assumes "i < length (allNotes (parseABCNotation t))"
  shows "index (allNotes (parseABCNotation t) ! i) = i"
proof -
  have "map index (allNotes (parseABCNotation t)) ! i = [0..<length (allNotes (parseABCNotation t))] ! i"
    by (simp only: parseABCNotation_shape(2))
  with assms show ?thesis by simp
qed

section \<open>The parser: claims\<close>




section \<open>Navigation: stepping by notes\<close>

lemma previousNote_range:
  assumes "sheet st = Some sh" "0 \<le> currentNoteIndex st" "currentNoteIndex st < int (length (allNotes sh))"
  shows "sheet (previousNote st) = Some sh \<and> 0 \<le> currentNoteIndex (previousNote st)
         \<and> currentNoteIndex (previousNote st) < int (length (allNotes sh))"
  using assms by (auto simp: previousNote_def)

lemma nextNote_range:
  assumes "sheet st = Some sh" "0 \<le> currentNoteIndex st" "currentNoteIndex st < int (length (allNotes sh))"
  shows "sheet (nextNote st) = Some sh \<and> 0 \<le> currentNoteIndex (nextNote st)
         \<and> currentNoteIndex (nextNote st) < int (length (allNotes sh))"
  using assms by (auto simp: nextNote_def)

lemma callNoteSteps_range:
  assumes "sheet st = Some sh" "0 \<le> currentNoteIndex st" "currentNoteIndex st < int (length (allNotes sh))"
  shows "sheet (callNoteSteps steps st) = Some sh \<and> 0 \<le> currentNoteIndex (callNoteSteps steps st)
         \<and> currentNoteIndex (callNoteSteps steps st) < int (length (allNotes sh))"
  using assms
proof (induction steps arbitrary: st)
  case Nil
  then show ?case by (simp add: callNoteSteps_def)
next
  case (Cons a steps)
  have step: "sheet (callNoteStep a st) = Some sh \<and> 0 \<le> currentNoteIndex (callNoteStep a st)
         \<and> currentNoteIndex (callNoteStep a st) < int (length (allNotes sh))"
    using Cons.prems by (cases a) (simp_all add: previousNote_range nextNote_range)
  have "callNoteSteps (a # steps) st = callNoteSteps steps (callNoteStep a st)"
    by (simp add: callNoteSteps_def)
  with Cons.IH [of "callNoteStep a st"] step show ?case by simp
qed


text \<open>
  C6. With a sheet of n notes loaded and the note index in [0, n-1], any finite sequence of
  calls of \<open>previousNote()\<close> and \<open>nextNote()\<close> leaves the note index in [0, n-1] and
  the sheet in place. \<open>nextNote()\<close> at n-1 and \<open>previousNote()\<close> at 0 change nothing;
  elsewhere they move the note index by exactly one. Neither has an error result.
\<close>

theorem note_steps_stay_in_range:
  assumes "sheet st = Some sh"
    and "0 \<le> currentNoteIndex st"
    and "currentNoteIndex st < int (length (allNotes sh))"
  shows "0 \<le> currentNoteIndex (callNoteSteps steps st)
         \<and> currentNoteIndex (callNoteSteps steps st) \<le> int (length (allNotes sh)) - 1
         \<and> sheet (callNoteSteps steps st) = Some sh
         \<and> (currentNoteIndex st = int (length (allNotes sh)) - 1 \<longrightarrow> nextNote st = st)
         \<and> (currentNoteIndex st = 0 \<longrightarrow> previousNote st = st)
         \<and> (currentNoteIndex st < int (length (allNotes sh)) - 1 \<longrightarrow>
               nextNote st = st\<lparr>currentNoteIndex := currentNoteIndex st + 1\<rparr>)
         \<and> (0 < currentNoteIndex st \<longrightarrow>
               previousNote st = st\<lparr>currentNoteIndex := currentNoteIndex st - 1\<rparr>)"
proof -
  have "currentNoteIndex (callNoteSteps steps st) < int (length (allNotes sh))"
    using callNoteSteps_range [OF assms] by blast
  then have "currentNoteIndex (callNoteSteps steps st) \<le> int (length (allNotes sh)) - 1"
    by simp
  moreover have "0 \<le> currentNoteIndex (callNoteSteps steps st)"
    "sheet (callNoteSteps steps st) = Some sh"
    using callNoteSteps_range [OF assms] by blast+
  moreover have "currentNoteIndex st = int (length (allNotes sh)) - 1 \<longrightarrow> nextNote st = st"
    using assms(1) by (simp add: nextNote_def)
  moreover have "currentNoteIndex st = 0 \<longrightarrow> previousNote st = st"
    by (simp add: previousNote_def)
  moreover have "currentNoteIndex st < int (length (allNotes sh)) - 1 \<longrightarrow>
               nextNote st = st\<lparr>currentNoteIndex := currentNoteIndex st + 1\<rparr>"
    using assms(1) by (simp add: nextNote_def)
  moreover have "0 < currentNoteIndex st \<longrightarrow>
               previousNote st = st\<lparr>currentNoteIndex := currentNoteIndex st - 1\<rparr>"
    by (simp add: previousNote_def)
  ultimately show ?thesis by blast
qed


theorem note_steps_stay_in_range_witness:
  "currentNoteIndex
     (callNoteSteps [NextNote, NextNote, NextNote, PreviousNote]
        \<lparr>sheet = Some (parseABCNotation (js ''C Q D |'')), currentNoteIndex = 1, bookmark = 0,
         selectedSheet = js ''two'', localStorage = Map.empty\<rparr>)
     \<le> int (length (allNotes (parseABCNotation (js ''C Q D |'')))) - 1
   \<and> nextNote
        \<lparr>sheet = Some (parseABCNotation (js ''C Q D |'')), currentNoteIndex = 1, bookmark = 0,
         selectedSheet = js ''two'', localStorage = Map.empty\<rparr>
       = \<lparr>sheet = Some (parseABCNotation (js ''C Q D |'')), currentNoteIndex = 1, bookmark = 0,
         selectedSheet = js ''two'', localStorage = Map.empty\<rparr>
   \<and> previousNote
        \<lparr>sheet = Some (parseABCNotation (js ''C Q D |'')), currentNoteIndex = 1, bookmark = 0,
         selectedSheet = js ''two'', localStorage = Map.empty\<rparr>
       = \<lparr>sheet = Some (parseABCNotation (js ''C Q D |'')), currentNoteIndex = 0, bookmark = 0,
         selectedSheet = js ''two'', localStorage = Map.empty\<rparr>"
proof -
  define sh where "sh = parseABCNotation (js ''C Q D |'')"
  define st where "st = \<lparr>sheet = Some sh, currentNoteIndex = 1, bookmark = 0,
                          selectedSheet = js ''two'', localStorage = Map.empty\<rparr>"
  have len: "length (allNotes sh) = 2"
    unfolding sh_def by (simp add: parser_defs)
  have h: "sheet st = Some sh" "0 \<le> currentNoteIndex st"
    "currentNoteIndex st < int (length (allNotes sh))"
    by (simp_all add: st_def len)
  from note_steps_stay_in_range [OF h, of "[NextNote, NextNote, NextNote, PreviousNote]"] len
  have "currentNoteIndex (callNoteSteps [NextNote, NextNote, NextNote, PreviousNote] st)
          \<le> int (length (allNotes sh)) - 1"
    and "nextNote st = st"
    and "previousNote st = st\<lparr>currentNoteIndex := currentNoteIndex st - 1\<rparr>"
    by (simp_all add: st_def)
  then show ?thesis
    unfolding st_def sh_def by simp
qed

text \<open>
  C4. With a sheet loaded and the note index inside it, \<open>checkNote(d)\<close> returns true
  exactly when \<open>d\<close> is the pitch of the current note; it then leaves the state that
  \<open>nextNote()\<close> leaves, and otherwise it returns false and leaves the state as it was.
  With no sheet, or with the note index outside the sheet, there is no current note:
  \<open>checkNote(d)\<close> returns false and leaves the state as it was.
\<close>

theorem checkNote_matches_current_pitch:
  "(sheet st = Some sh \<and> 0 \<le> currentNoteIndex st
      \<and> currentNoteIndex st < int (length (allNotes sh))
    \<longrightarrow>
      (fst (checkNote d st) \<longleftrightarrow> pitch (allNotes sh ! nat (currentNoteIndex st)) = Own d)
      \<and> (pitch (allNotes sh ! nat (currentNoteIndex st)) = Own d \<longrightarrow>
            checkNote d st = (True, nextNote st))
      \<and> (pitch (allNotes sh ! nat (currentNoteIndex st)) \<noteq> Own d \<longrightarrow>
            checkNote d st = (False, st)))
   \<and> (sheet st = None
        \<or> (sheet st = Some sh
            \<and> (currentNoteIndex st < 0 \<or> int (length (allNotes sh)) \<le> currentNoteIndex st))
    \<longrightarrow> checkNote d st = (False, st))"
  by (auto simp: checkNote_def getCurrentNote_def at_index_def)

theorem checkNote_matches_current_pitch_witness:
  "checkNote (js ''C4'')
     \<lparr>sheet = Some (parseABCNotation (js ''C Q D |'')), currentNoteIndex = 0, bookmark = 0,
      selectedSheet = js ''two'', localStorage = Map.empty\<rparr>
     = (True, \<lparr>sheet = Some (parseABCNotation (js ''C Q D |'')), currentNoteIndex = 1,
               bookmark = 0, selectedSheet = js ''two'', localStorage = Map.empty\<rparr>)
   \<and> checkNote (js ''D4'')
     \<lparr>sheet = Some (parseABCNotation (js ''C Q D |'')), currentNoteIndex = 0, bookmark = 0,
      selectedSheet = js ''two'', localStorage = Map.empty\<rparr>
     = (False, \<lparr>sheet = Some (parseABCNotation (js ''C Q D |'')), currentNoteIndex = 0,
               bookmark = 0, selectedSheet = js ''two'', localStorage = Map.empty\<rparr>)"
proof -
  define sh where "sh = parseABCNotation (js ''C Q D |'')"
  define st where "st = \<lparr>sheet = Some sh, currentNoteIndex = 0, bookmark = 0,
                          selectedSheet = js ''two'', localStorage = Map.empty\<rparr>"
  have ps: "map pitch (allNotes sh) = [Own (js ''C4''), Own (js ''D4'')]"
    unfolding sh_def by (simp add: parser_defs)
  have len: "length (allNotes sh) = 2"
    using arg_cong [OF ps, of length] by simp
  have p0: "pitch (allNotes sh ! 0) = Own (js ''C4'')"
    using nth_map [of 0 "allNotes sh" pitch] len ps by simp
  have ne: "Own (js ''C4'') \<noteq> (Own (js ''D4'') :: jsstring property)"
    by (simp add: js_def)
  have h: "sheet st = Some sh" "0 \<le> currentNoteIndex st"
    "currentNoteIndex st < int (length (allNotes sh))"
    by (simp_all add: st_def len)
  have c0: "nat (currentNoteIndex st) = 0" by (simp add: st_def)
  have "checkNote (js ''C4'') st = (True, nextNote st)"
    using checkNote_matches_current_pitch [of st sh "js ''C4''"] h p0 unfolding c0 by simp
  moreover have "nextNote st = st\<lparr>currentNoteIndex := 1\<rparr>"
    using len by (simp add: nextNote_def st_def)
  moreover have "checkNote (js ''D4'') st = (False, st)"
    using checkNote_matches_current_pitch [of st sh "js ''D4''"] h p0 ne unfolding c0 by simp
  ultimately show ?thesis
    unfolding st_def sh_def by simp
qed

section \<open>Navigation: stepping by measures\<close>

lemma sorted_concat_replicate:
  "sorted (concat (map (\<lambda>(i, seg). replicate (c seg) i) (enumerate m segs)))
   \<and> (\<forall>x \<in> set (concat (map (\<lambda>(i, seg). replicate (c seg) i) (enumerate m segs))). m \<le> x)"
proof (induction segs arbitrary: m)
  case Nil
  then show ?case by simp
next
  case (Cons seg segs)
  from Cons.IH [of "Suc m"] show ?case
    by (auto simp: sorted_append dest: Suc_leD)
qed

lemma sorted_measureNum: "sorted (map measureNum (allNotes (parseABCNotation t)))"
  using sorted_concat_replicate [of recognizedCount 0 "segmentsOf t"]
  by (simp only: parseABCNotation_shape(4))

lemma sorted_nth_measureNum:
  assumes "sorted (map measureNum ns)" "p \<le> q" "q < length ns"
  shows "measureNum (ns ! p) \<le> measureNum (ns ! q)"
proof -
  have "map measureNum ns ! p \<le> map measureNum ns ! q"
    using assms by (intro sorted_nth_mono) simp_all
  with assms show ?thesis by simp
qed

lemma nextMeasureLoop_spec:
  assumes "0 \<le> i"
  shows "(\<exists>p. nextMeasureLoop ns M i cur = int p \<and> nat i \<le> p \<and> p < length ns
              \<and> M < measureNum (ns ! p)
              \<and> (\<forall>q. nat i \<le> q \<and> q < p \<longrightarrow> \<not> M < measureNum (ns ! q)))
         \<or> (nextMeasureLoop ns M i cur = cur
              \<and> (\<forall>q. nat i \<le> q \<and> q < length ns \<longrightarrow> \<not> M < measureNum (ns ! q)))"
  using assms
proof (induction ns M i cur rule: nextMeasureLoop.induct)
  case (1 ns M i cur)
  show ?case
  proof (cases "i < int (length ns)")
    case False
    have "nextMeasureLoop ns M i cur = cur"
      using False by (simp add: nextMeasureLoop.simps [of ns M i cur])
    moreover have "\<forall>q. nat i \<le> q \<and> q < length ns \<longrightarrow> \<not> M < measureNum (ns ! q)"
      using False "1.prems" by auto
    ultimately show ?thesis by blast
  next
    case inb: True
    show ?thesis
    proof (cases "M < measureNum (ns ! nat i)")
      case True
      have "nextMeasureLoop ns M i cur = int (nat i)"
        using inb True "1.prems" by (simp add: nextMeasureLoop.simps [of ns M i cur])
      moreover have "nat i < length ns" using inb "1.prems" by simp
      ultimately show ?thesis using True by (intro disjI1 exI [of _ "nat i"]) auto
    next
      case False
      have eq: "nextMeasureLoop ns M i cur = nextMeasureLoop ns M (i + 1) cur"
        using inb False by (simp add: nextMeasureLoop.simps [of ns M i cur])
      have nat_eq: "nat (i + 1) = Suc (nat i)" using "1.prems" by simp
      have low: "\<And>q. nat i \<le> q \<Longrightarrow> q = nat i \<or> Suc (nat i) \<le> q" by auto
      from "1.IH" [OF inb False] "1.prems"
      consider
        (found) p where "nextMeasureLoop ns M (i + 1) cur = int p" "Suc (nat i) \<le> p" "p < length ns"
          "M < measureNum (ns ! p)" "\<forall>q. Suc (nat i) \<le> q \<and> q < p \<longrightarrow> \<not> M < measureNum (ns ! q)"
      | (none) "nextMeasureLoop ns M (i + 1) cur = cur"
          "\<forall>q. Suc (nat i) \<le> q \<and> q < length ns \<longrightarrow> \<not> M < measureNum (ns ! q)"
        unfolding nat_eq by fastforce
      then show ?thesis
      proof cases
        case found
        have "\<forall>q. nat i \<le> q \<and> q < p \<longrightarrow> \<not> M < measureNum (ns ! q)"
          using found(5) False low by blast
        with found eq show ?thesis
          by (intro disjI1 exI [of _ p]) auto
      next
        case none
        have "\<forall>q. nat i \<le> q \<and> q < length ns \<longrightarrow> \<not> M < measureNum (ns ! q)"
          using none(2) False low by blast
        with none eq show ?thesis by simp
      qed
    qed
  qed
qed

lemma firstOfMeasure_spec:
  assumes "- 1 \<le> j" "j < int (length ns)"
  shows "\<exists>p. firstOfMeasure ns T j cur = (if p = nat (j + 1) then cur else int p)
             \<and> p \<le> nat (j + 1)
             \<and> (\<forall>q. p \<le> q \<and> q < nat (j + 1) \<longrightarrow> measureNum (ns ! q) = T)
             \<and> (p = 0 \<or> measureNum (ns ! (p - 1)) \<noteq> T)"
  using assms
proof (induction ns T j cur rule: firstOfMeasure.induct)
  case (1 ns T j cur)
  show ?case
  proof (cases "0 \<le> j")
    case False
    have "firstOfMeasure ns T j cur = cur"
      using False by (simp add: firstOfMeasure.simps [of ns T j cur])
    moreover have "nat (j + 1) = 0" using False by simp
    ultimately show ?thesis
      by (intro exI [of _ 0]) simp
  next
    case nonneg: True
    have nat_eq: "nat (j + 1) = Suc (nat j)" using nonneg by simp
    show ?thesis
    proof (cases "measureNum (ns ! nat j) = T")
      case False
      have "firstOfMeasure ns T j cur = cur"
        using nonneg False by (simp add: firstOfMeasure.simps [of ns T j cur])
      then show ?thesis using False nat_eq
        by (intro exI [of _ "Suc (nat j)"]) simp
    next
      case True
      have eq: "firstOfMeasure ns T j cur = firstOfMeasure ns T (j - 1) j"
        using nonneg True by (simp add: firstOfMeasure.simps [of ns T j cur])
      have pre: "- 1 \<le> j - 1" "j - 1 < int (length ns)" using nonneg "1.prems" by simp_all
      from "1.IH" [OF nonneg True pre]
      obtain p where p:
        "firstOfMeasure ns T (j - 1) j = (if p = nat (j - 1 + 1) then j else int p)"
        "p \<le> nat (j - 1 + 1)"
        "\<forall>q. p \<le> q \<and> q < nat (j - 1 + 1) \<longrightarrow> measureNum (ns ! q) = T"
        "p = 0 \<or> measureNum (ns ! (p - 1)) \<noteq> T"
        by blast
      have r: "firstOfMeasure ns T j cur = int p"
        using eq p(1) nonneg by (simp split: if_splits)
      have le: "p \<le> nat j" using p(2) by simp
      have all: "\<forall>q. p \<le> q \<and> q < Suc (nat j) \<longrightarrow> measureNum (ns ! q) = T"
      proof (intro allI impI)
        fix q assume "p \<le> q \<and> q < Suc (nat j)"
        then have "q = nat j \<or> (p \<le> q \<and> q < nat (j - 1 + 1))" by auto
        then show "measureNum (ns ! q) = T" using True p(3) by blast
      qed
      show ?thesis
        unfolding nat_eq using r le all p(4)
        by (intro exI [of _ p]) auto
    qed
  qed
qed

lemma previousMeasureLoop_spec:
  assumes "- 1 \<le> i" "i < int (length ns)"
  shows "(previousMeasureLoop ns M i cur = 0
            \<and> (\<forall>q. q < nat (i + 1) \<longrightarrow> \<not> measureNum (ns ! q) < M))
         \<or> (\<exists>q. q < nat (i + 1) \<and> measureNum (ns ! q) < M
              \<and> (\<forall>r. q < r \<and> r < nat (i + 1) \<longrightarrow> \<not> measureNum (ns ! r) < M)
              \<and> previousMeasureLoop ns M i cur = firstOfMeasure ns (measureNum (ns ! q)) (int q) cur)"
  using assms
proof (induction ns M i cur rule: previousMeasureLoop.induct)
  case (1 ns M i cur)
  show ?case
  proof (cases "0 \<le> i")
    case False
    have "previousMeasureLoop ns M i cur = 0"
      using False by (simp add: previousMeasureLoop.simps [of ns M i cur])
    moreover have "nat (i + 1) = 0" using False by simp
    ultimately show ?thesis by simp
  next
    case nonneg: True
    have nat_eq: "nat (i + 1) = Suc (nat i)" using nonneg by simp
    show ?thesis
    proof (cases "measureNum (ns ! nat i) < M")
      case True
      have "previousMeasureLoop ns M i cur = firstOfMeasure ns (measureNum (ns ! nat i)) (int (nat i)) cur"
        using nonneg True by (simp add: previousMeasureLoop.simps [of ns M i cur])
      then show ?thesis using True nat_eq
        by (intro disjI2 exI [of _ "nat i"]) auto
    next
      case False
      have eq: "previousMeasureLoop ns M i cur = previousMeasureLoop ns M (i - 1) cur"
        using nonneg False by (simp add: previousMeasureLoop.simps [of ns M i cur])
      have pre: "- 1 \<le> i - 1" "i - 1 < int (length ns)" using nonneg "1.prems" by simp_all
      have up: "\<And>q. q < Suc (nat i) \<Longrightarrow> q = nat i \<or> q < nat (i - 1 + 1)" by auto
      from "1.IH" [OF nonneg False pre]
      consider
        (none) "previousMeasureLoop ns M (i - 1) cur = 0"
          "\<forall>q. q < nat (i - 1 + 1) \<longrightarrow> \<not> measureNum (ns ! q) < M"
      | (found) q where "q < nat (i - 1 + 1)" "measureNum (ns ! q) < M"
          "\<forall>r. q < r \<and> r < nat (i - 1 + 1) \<longrightarrow> \<not> measureNum (ns ! r) < M"
          "previousMeasureLoop ns M (i - 1) cur = firstOfMeasure ns (measureNum (ns ! q)) (int q) cur"
        by blast
      then show ?thesis
      proof cases
        case none
        have "\<forall>q. q < Suc (nat i) \<longrightarrow> \<not> measureNum (ns ! q) < M"
          using none(2) False up by blast
        with none(1) eq show ?thesis unfolding nat_eq by simp
      next
        case found
        have "\<forall>r. q < r \<and> r < Suc (nat i) \<longrightarrow> \<not> measureNum (ns ! r) < M"
          using found(3) False up by blast
        moreover have "q < Suc (nat i)" using found(1) by simp
        ultimately show ?thesis
          unfolding nat_eq using found(2,4) eq
          by (intro disjI2 exI [of _ q]) auto
      qed
    qed
  qed
qed

lemma measuresBefore_iff:
  "T \<in> measuresBefore ns M \<longleftrightarrow> (\<exists>q < length ns. measureNum (ns ! q) = T \<and> T < M)"
proof -
  have "T \<in> measureNum ` set ns \<longleftrightarrow> (\<exists>q < length ns. measureNum (ns ! q) = T)"
    by (metis (no_types, lifting) image_iff in_set_conv_nth)
  then show ?thesis by (auto simp: measuresBefore_def)
qed

lemma nextMeasure_sorted:
  assumes sh: "sheet st = Some sh"
    and srt: "sorted (map measureNum (allNotes sh))"
    and idx: "\<And>i. i < length (allNotes sh) \<Longrightarrow> index (allNotes sh ! i) = i"
    and lo: "0 \<le> currentNoteIndex st"
    and hi: "currentNoteIndex st < int (length (allNotes sh))"
  shows "nextMeasure st =
           st\<lparr>currentNoteIndex :=
                (case List.find (\<lambda>n. measureNum (allNotes sh ! nat (currentNoteIndex st)) < measureNum n)
                        (allNotes sh) of
                   Some n \<Rightarrow> int (index n)
                 | None \<Rightarrow> currentNoteIndex st)\<rparr>"
proof -
  define ns where "ns = allNotes sh"
  define cur where "cur = currentNoteIndex st"
  define c where "c = nat cur"
  define M where "M = measureNum (ns ! c)"
  have c: "c < length ns" "cur = int c" using lo hi by (simp_all add: c_def cur_def ns_def)
  have unfold: "nextMeasure st = st\<lparr>currentNoteIndex := nextMeasureLoop ns M (cur + 1) cur\<rparr>"
    using sh lo hi by (simp add: nextMeasure_def at_index_def ns_def M_def c_def cur_def)
  have nat_eq: "nat (cur + 1) = Suc c" using c by simp
  have below: "\<not> M < measureNum (ns ! q)" if "q \<le> c" for q
    using sorted_nth_measureNum [of ns q c] srt that c by (simp add: ns_def M_def)
  have "0 \<le> cur + 1" using c by simp
  from nextMeasureLoop_spec [OF this, of ns M cur]
  consider
    (found) p where "nextMeasureLoop ns M (cur + 1) cur = int p" "Suc c \<le> p" "p < length ns"
      "M < measureNum (ns ! p)" "\<forall>q. Suc c \<le> q \<and> q < p \<longrightarrow> \<not> M < measureNum (ns ! q)"
  | (none) "nextMeasureLoop ns M (cur + 1) cur = cur"
      "\<forall>q. Suc c \<le> q \<and> q < length ns \<longrightarrow> \<not> M < measureNum (ns ! q)"
    unfolding nat_eq by blast
  then have "nextMeasureLoop ns M (cur + 1) cur =
      (case List.find (\<lambda>n. M < measureNum n) ns of Some n \<Rightarrow> int (index n) | None \<Rightarrow> cur)"
  proof cases
    case found
    have "\<not> M < measureNum (ns ! q)" if "q < p" for q
      using that found(5) below [of q] by (cases "q \<le> c") auto
    then have "List.find (\<lambda>n. M < measureNum n) ns = Some (ns ! p)"
      using found(3,4) by (auto simp: find_Some_iff)
    moreover have "index (ns ! p) = p" using idx found(3) by (simp add: ns_def)
    ultimately show ?thesis using found(1) by simp
  next
    case none
    have "\<not> M < measureNum (ns ! q)" if "q < length ns" for q
      using that none(2) below [of q] by (cases "q \<le> c") auto
    then have "List.find (\<lambda>n. M < measureNum n) ns = None"
      by (auto simp: find_None_iff in_set_conv_nth)
    then show ?thesis using none(1) by simp
  qed
  then show ?thesis
    unfolding unfold ns_def M_def c_def cur_def by simp
qed

lemma previousMeasure_sorted:
  assumes sh: "sheet st = Some sh"
    and srt: "sorted (map measureNum (allNotes sh))"
    and idx: "\<And>i. i < length (allNotes sh) \<Longrightarrow> index (allNotes sh ! i) = i"
    and lo: "0 \<le> currentNoteIndex st"
    and hi: "currentNoteIndex st < int (length (allNotes sh))"
    and M: "M = measureNum (allNotes sh ! nat (currentNoteIndex st))"
  shows "(measuresBefore (allNotes sh) M = {} \<longrightarrow> previousMeasure st = st\<lparr>currentNoteIndex := 0\<rparr>)
       \<and> (measuresBefore (allNotes sh) M \<noteq> {} \<longrightarrow>
            (\<exists>n. List.find (\<lambda>n. measureNum n = Max (measuresBefore (allNotes sh) M)) (allNotes sh) = Some n
                 \<and> previousMeasure st = st\<lparr>currentNoteIndex := int (index n)\<rparr>))"
proof -
  define ns where "ns = allNotes sh"
  define cur where "cur = currentNoteIndex st"
  define c where "c = nat cur"
  have c: "c < length ns" "cur = int c" using lo hi by (simp_all add: c_def cur_def ns_def)
  have M': "M = measureNum (ns ! c)" using M by (simp add: ns_def c_def cur_def)
  have unfold: "previousMeasure st = st\<lparr>currentNoteIndex := previousMeasureLoop ns M (cur - 1) cur\<rparr>"
    using sh lo hi by (simp add: previousMeasure_def at_index_def ns_def M c_def cur_def)
  have nat_eq: "nat (cur - 1 + 1) = c" using c by simp
  have above: "\<not> measureNum (ns ! q) < M" if "c \<le> q" "q < length ns" for q
    using sorted_nth_measureNum [of ns c q] srt that by (simp add: ns_def M')
  have pre: "- 1 \<le> cur - 1" "cur - 1 < int (length ns)" using c by simp_all
  from previousMeasureLoop_spec [OF pre, of M cur]
  consider
    (none) "previousMeasureLoop ns M (cur - 1) cur = 0"
      "\<forall>q. q < c \<longrightarrow> \<not> measureNum (ns ! q) < M"
  | (found) q where "q < c" "measureNum (ns ! q) < M"
      "\<forall>r. q < r \<and> r < c \<longrightarrow> \<not> measureNum (ns ! r) < M"
      "previousMeasureLoop ns M (cur - 1) cur = firstOfMeasure ns (measureNum (ns ! q)) (int q) cur"
    unfolding nat_eq by blast
  then show ?thesis
  proof cases
    case none
    have "\<not> measureNum (ns ! q) < M" if "q < length ns" for q
      using that none(2) above [of q] by (cases "q < c") auto
    then have "T \<notin> measuresBefore ns M" for T
      unfolding measuresBefore_iff by blast
    then have "measuresBefore ns M = {}"
      by (simp add: set_eq_iff)
    then show ?thesis using none(1) unfold by (simp add: ns_def)
  next
    case found
    define T where "T = measureNum (ns ! q)"
    have q: "q < length ns" using found(1) c(1) by simp
    have inT: "T \<in> measuresBefore ns M"
      unfolding measuresBefore_iff using q found(2) T_def by blast
    have ub: "y \<le> T" if "y \<in> measuresBefore ns M" for y
    proof -
      from that obtain r where r: "r < length ns" "measureNum (ns ! r) = y" "y < M"
        unfolding measuresBefore_iff by blast
      have "r \<le> q"
      proof (rule ccontr)
        assume "\<not> r \<le> q"
        then have "q < r" by simp
        then have "\<not> measureNum (ns ! r) < M"
          using found(3) above [of r] r(1) by (cases "r < c") auto
        with r show False by simp
      qed
      then show ?thesis
        using sorted_nth_measureNum [of ns r q] srt q r(2) by (simp add: ns_def T_def)
    qed
    have fin: "finite (measuresBefore ns M)" by (simp add: measuresBefore_def)
    have max: "Max (measuresBefore ns M) = T"
      using fin inT ub by (intro Max_eqI) auto
    have "- 1 \<le> int q" "int q < int (length ns)" using q by simp_all
    from firstOfMeasure_spec [OF this, of T cur]
    obtain p where p:
      "firstOfMeasure ns T (int q) cur = (if p = nat (int q + 1) then cur else int p)"
      "p \<le> nat (int q + 1)"
      "\<forall>r. p \<le> r \<and> r < nat (int q + 1) \<longrightarrow> measureNum (ns ! r) = T"
      "p = 0 \<or> measureNum (ns ! (p - 1)) \<noteq> T"
      by blast
    have nq: "nat (int q + 1) = Suc q" by simp
    have pne: "p \<noteq> Suc q"
    proof
      assume "p = Suc q"
      with p(4) show False by (simp add: T_def)
    qed
    then have ple: "p \<le> q" using p(2) nq by simp
    have res: "firstOfMeasure ns T (int q) cur = int p" using p(1) pne nq by simp
    have pT: "measureNum (ns ! p) = T" using p(3) ple nq by simp
    have plen: "p < length ns" using ple q by simp
    have before: "measureNum (ns ! r) \<noteq> T" if "r < p" for r
    proof -
      from that have p0: "p \<noteq> 0" by simp
      with p(4) have ne: "measureNum (ns ! (p - 1)) \<noteq> T" by simp
      have "measureNum (ns ! (p - 1)) \<le> measureNum (ns ! p)"
        using sorted_nth_measureNum [of ns "p - 1" p] srt plen by (simp add: ns_def)
      with ne pT have lt: "measureNum (ns ! (p - 1)) < T" by simp
      have "measureNum (ns ! r) \<le> measureNum (ns ! (p - 1))"
        using sorted_nth_measureNum [of ns r "p - 1"] srt plen that by (simp add: ns_def)
      with lt show ?thesis by simp
    qed
    have "List.find (\<lambda>n. measureNum n = T) ns = Some (ns ! p)"
      using plen pT before by (auto simp: find_Some_iff)
    moreover have "index (ns ! p) = p" using idx plen by (simp add: ns_def)
    moreover have "previousMeasure st = st\<lparr>currentNoteIndex := int p\<rparr>"
      using unfold found(4) res by (simp add: T_def)
    moreover have "measuresBefore ns M \<noteq> {}" using inT by blast
    ultimately show ?thesis using max by (simp add: ns_def)
  qed
qed

lemma nextMeasure_four_plus_four:
  assumes "sheet st = Some sh" "map measureNum (allNotes sh) = [0, 0, 0, 0, 1, 1, 1, 1]"
    "currentNoteIndex st = 0"
  shows "currentNoteIndex (nextMeasure st) = 4"
proof -
  have len: "length (allNotes sh) = 8"
    using arg_cong [OF assms(2), of length] by simp
  have m: "measureNum (allNotes sh ! k) = [0, 0, 0, 0, 1, 1, 1, 1] ! k" if "k < 8" for k
    using that len nth_map [of k "allNotes sh" measureNum] assms(2) by simp
  have ms: "measureNum (allNotes sh ! 0) = 0" "measureNum (allNotes sh ! 1) = 0"
    "measureNum (allNotes sh ! 2) = 0" "measureNum (allNotes sh ! 3) = 0"
    "measureNum (allNotes sh ! 4) = 1"
    using m [of 0] m [of 1] m [of 2] m [of 3] m [of 4] by simp_all
  show ?thesis
    using assms(1,3) len ms
    by (simp add: nextMeasure_def at_index_def nextMeasureLoop.simps)
qed

lemma previousMeasure_four_plus_four:
  assumes "sheet st = Some sh" "map measureNum (allNotes sh) = [0, 0, 0, 0, 1, 1, 1, 1]"
    "currentNoteIndex st = 4"
  shows "currentNoteIndex (previousMeasure st) = 0"
proof -
  have len: "length (allNotes sh) = 8"
    using arg_cong [OF assms(2), of length] by simp
  have m: "measureNum (allNotes sh ! k) = [0, 0, 0, 0, 1, 1, 1, 1] ! k" if "k < 8" for k
    using that len nth_map [of k "allNotes sh" measureNum] assms(2) by simp
  have ms: "measureNum (allNotes sh ! 0) = 0" "measureNum (allNotes sh ! 1) = 0"
    "measureNum (allNotes sh ! 2) = 0" "measureNum (allNotes sh ! 3) = 0"
    "measureNum (allNotes sh ! 4) = 1"
    using m [of 0] m [of 1] m [of 2] m [of 3] m [of 4] by simp_all
  show ?thesis
    using assms(1,3) len ms
    by (simp add: previousMeasure_def at_index_def previousMeasureLoop.simps firstOfMeasure.simps)
qed

text \<open>
  C5. With a parsed sheet loaded and the note index inside it, let \<open>M\<close> be the measure of
  the current note. \<open>nextMeasure()\<close> moves to the first note of the sheet whose measure
  is above \<open>M\<close>, and changes nothing when there is none. \<open>previousMeasure()\<close> moves to
  the first note of the highest measure below \<open>M\<close>, and to note 0 when no measure is
  below \<open>M\<close>. On a sheet of eight notes in two measures, four notes each,
  \<open>nextMeasure()\<close> from note 0 reaches note 4 and \<open>previousMeasure()\<close> from note 4
  reaches note 0.
\<close>

theorem measure_navigation:
  "(sheet st = Some (parseABCNotation text) \<and> 0 \<le> currentNoteIndex st
      \<and> currentNoteIndex st < int (length (allNotes (parseABCNotation text)))
      \<and> ns = allNotes (parseABCNotation text)
      \<and> M = measureNum (ns ! nat (currentNoteIndex st))
    \<longrightarrow>
      nextMeasure st =
        st\<lparr>currentNoteIndex :=
             (case List.find (\<lambda>n. M < measureNum n) ns of
                Some n \<Rightarrow> int (index n)
              | None \<Rightarrow> currentNoteIndex st)\<rparr>
      \<and> (measuresBefore ns M = {} \<longrightarrow> previousMeasure st = st\<lparr>currentNoteIndex := 0\<rparr>)
      \<and> (measuresBefore ns M \<noteq> {} \<longrightarrow>
            (\<exists>n. List.find (\<lambda>n. measureNum n = Max (measuresBefore ns M)) ns = Some n
                 \<and> previousMeasure st = st\<lparr>currentNoteIndex := int (index n)\<rparr>)))
   \<and> (sheet st2 = Some sh2 \<and> map measureNum (allNotes sh2) = [0, 0, 0, 0, 1, 1, 1, 1]
    \<longrightarrow>
      (currentNoteIndex st2 = 0 \<longrightarrow> currentNoteIndex (nextMeasure st2) = 4)
      \<and> (currentNoteIndex st2 = 4 \<longrightarrow> currentNoteIndex (previousMeasure st2) = 0))"
proof (intro conjI impI)
  assume h: "sheet st = Some (parseABCNotation text) \<and> 0 \<le> currentNoteIndex st
      \<and> currentNoteIndex st < int (length (allNotes (parseABCNotation text)))
      \<and> ns = allNotes (parseABCNotation text)
      \<and> M = measureNum (ns ! nat (currentNoteIndex st))"
  then have sh: "sheet st = Some (parseABCNotation text)"
    and lo: "0 \<le> currentNoteIndex st"
    and hi: "currentNoteIndex st < int (length (allNotes (parseABCNotation text)))"
    and ns: "ns = allNotes (parseABCNotation text)"
    and M: "M = measureNum (allNotes (parseABCNotation text) ! nat (currentNoteIndex st))"
    by simp_all
  note srt = sorted_measureNum [of "text"]
  have idx: "\<And>i. i < length (allNotes (parseABCNotation text)) \<Longrightarrow>
               index (allNotes (parseABCNotation text) ! i) = i"
    by (rule index_is_position)
  show "nextMeasure st =
        st\<lparr>currentNoteIndex :=
             (case List.find (\<lambda>n. M < measureNum n) ns of
                Some n \<Rightarrow> int (index n)
              | None \<Rightarrow> currentNoteIndex st)\<rparr>"
    unfolding ns M by (rule nextMeasure_sorted [OF sh srt idx lo hi])
  {
    assume "measuresBefore ns M = {}"
    then show "previousMeasure st = st\<lparr>currentNoteIndex := 0\<rparr>"
      using previousMeasure_sorted [OF sh srt idx lo hi M] ns by simp
  }
  {
    assume "measuresBefore ns M \<noteq> {}"
    then show "\<exists>n. List.find (\<lambda>n. measureNum n = Max (measuresBefore ns M)) ns = Some n
                 \<and> previousMeasure st = st\<lparr>currentNoteIndex := int (index n)\<rparr>"
      using previousMeasure_sorted [OF sh srt idx lo hi M] ns by simp
  }
next
  assume "sheet st2 = Some sh2 \<and> map measureNum (allNotes sh2) = [0, 0, 0, 0, 1, 1, 1, 1]"
    and "currentNoteIndex st2 = 0"
  then show "currentNoteIndex (nextMeasure st2) = 4"
    using nextMeasure_four_plus_four [of st2 sh2] by simp
next
  assume "sheet st2 = Some sh2 \<and> map measureNum (allNotes sh2) = [0, 0, 0, 0, 1, 1, 1, 1]"
    and "currentNoteIndex st2 = 4"
  then show "currentNoteIndex (previousMeasure st2) = 0"
    using previousMeasure_four_plus_four [of st2 sh2] by simp
qed


lemma eight_notes_two_measures:
  "map measureNum (allNotes (parseABCNotation (js ''C C G G | A A G G |''))) = [0, 0, 0, 0, 1, 1, 1, 1]"
  "length (allNotes (parseABCNotation (js ''C C G G | A A G G |''))) = 8"
  by (simp_all add: parser_defs)

theorem measure_navigation_witness:
  "currentNoteIndex
     (nextMeasure \<lparr>sheet = Some (parseABCNotation (js ''C C G G | A A G G |'')),
                   currentNoteIndex = 0, bookmark = 0, selectedSheet = js ''eight'',
                   localStorage = Map.empty\<rparr>) = 4
   \<and> currentNoteIndex
     (previousMeasure \<lparr>sheet = Some (parseABCNotation (js ''C C G G | A A G G |'')),
                   currentNoteIndex = 4, bookmark = 0, selectedSheet = js ''eight'',
                   localStorage = Map.empty\<rparr>) = 0
   \<and> nextMeasure \<lparr>sheet = Some (parseABCNotation (js ''C C G G | A A G G |'')),
                   currentNoteIndex = 4, bookmark = 0, selectedSheet = js ''eight'',
                   localStorage = Map.empty\<rparr>
       = \<lparr>sheet = Some (parseABCNotation (js ''C C G G | A A G G |'')),
                   currentNoteIndex = 4, bookmark = 0, selectedSheet = js ''eight'',
                   localStorage = Map.empty\<rparr>"
proof -
  define sh where "sh = parseABCNotation (js ''C C G G | A A G G |'')"
  define st0 where "st0 = \<lparr>sheet = Some sh, currentNoteIndex = 0, bookmark = 0,
                            selectedSheet = js ''eight'', localStorage = Map.empty\<rparr>"
  define st4 where "st4 = \<lparr>sheet = Some sh, currentNoteIndex = 4, bookmark = 0,
                            selectedSheet = js ''eight'', localStorage = Map.empty\<rparr>"
  have pat: "map measureNum (allNotes sh) = [0, 0, 0, 0, 1, 1, 1, 1]"
    and len: "length (allNotes sh) = 8"
    unfolding sh_def by (rule eight_notes_two_measures)+
  have m4: "measureNum (allNotes sh ! 4) = 1"
    using nth_map [of 4 "allNotes sh" measureNum] len pat by simp
  have none: "List.find (\<lambda>n. 1 < measureNum n) (allNotes sh) = None"
  proof -
    have "\<forall>m \<in> set (map measureNum (allNotes sh)). \<not> 1 < m"
      unfolding pat by simp
    then show ?thesis by (simp add: find_None_iff)
  qed
  have a: "currentNoteIndex (nextMeasure st0) = 4"
    using measure_navigation [of st4 "js ''C C G G | A A G G |''" "allNotes sh" 1 st0 sh] pat
    by (simp add: st0_def)
  have b: "currentNoteIndex (previousMeasure st4) = 0"
    using measure_navigation [of st4 "js ''C C G G | A A G G |''" "allNotes sh" 1 st4 sh] pat
    by (simp add: st4_def)
  have c: "nextMeasure st4 = st4"
    using measure_navigation [of st4 "js ''C C G G | A A G G |''" "allNotes sh" 1 st4 sh]
      len m4 none
    by (simp add: st4_def sh_def)
  from a b c show ?thesis
    unfolding st0_def st4_def sh_def by simp
qed

section \<open>The parser: flat markers\<close>

lemma takeWhile_rev_suffix:
  assumes "list_all durationChar suffix" and "pre = [] \<or> \<not> durationChar (last pre)"
  shows "rev (takeWhile durationChar (rev (pre @ suffix))) = suffix"
proof -
  have "takeWhile durationChar (rev pre) = []"
    using assms(2) by (cases pre rule: rev_cases) simp_all
  moreover have "\<forall>x \<in> set (rev suffix). durationChar x"
    using assms(1) by (simp add: list_all_iff)
  ultimately have "takeWhile durationChar (rev suffix @ rev pre) = rev suffix"
    using takeWhile_append2 [of "rev suffix" durationChar "rev pre"] by simp
  then show ?thesis by simp
qed

lemma splitDuration_append:
  assumes "list_all durationChar suffix" and "pre = [] \<or> \<not> durationChar (last pre)"
  shows "splitDuration (pre @ suffix) =
           (pre, if suffix = [] then Quarter else durationOf suffix)"
  using takeWhile_rev_suffix [OF assms]
  by (simp add: splitDuration_def durationMatch_def Let_def substring_to_def)

lemma parseNote_append:
  assumes "list_all durationChar suffix" and "pre = [] \<or> \<not> durationChar (last pre)"
  shows "parseNote (pre @ suffix) m i =
           (case obj_get noteMap pre of
              None \<Rightarrow> None
            | Some p \<Rightarrow>
                if \<not> truthy_str p then None
                else Some \<lparr>pitch = p,
                           duration = (if suffix = [] then Quarter else durationOf suffix),
                           measureNum = m, index = i\<rparr>)"
  by (simp add: parseNote_def splitDuration_append [OF assms])

lemma not_durationChar_letter:
  "letter \<in> set (js ''DEGABdegab'') \<Longrightarrow> \<not> durationChar letter"
  by (auto simp: js_def durationChar_def)

lemma flat_lookup:
  assumes "letter \<in> set (js ''DEGABdegab'')"
  shows "obj_get noteMap (js ''_'' @ [letter]) = Some (Own (naturalPitch letter))"
    and "obj_get noteMap [letter] = Some (Own (naturalPitch letter))"
  using assms by (auto simp: js_def obj_get_def noteMap_def naturalPitch_def)


text \<open>
  C9 (as amended). A token made of the flat marker, one of the letters D, E, G, A, B in
  either case and a duration suffix (possibly empty) is accepted and parses to exactly
  the note of the same token without the marker: its pitch is the natural pitch of the
  letter in the same octave. "_D" gives D4 and "_d" gives D5.
\<close>

theorem flat_parses_as_natural:
  assumes "letter \<in> set (js ''DEGABdegab'')"
    and "list_all durationChar suffix"
  shows "parseNote (js ''_'' @ [letter] @ suffix) m i = parseNote ([letter] @ suffix) m i
       \<and> map_option pitch (parseNote (js ''_'' @ [letter] @ suffix) m i)
           = Some (Own (naturalPitch letter))
       \<and> map_option pitch (parseNote (js ''_D'') m i) = Some (Own (js ''D4''))
       \<and> map_option pitch (parseNote (js ''_d'') m i) = Some (Own (js ''D5''))"
proof -
  have nd: "\<not> durationChar letter" by (rule not_durationChar_letter [OF assms(1)])
  have ne: "naturalPitch letter \<noteq> []" by (simp add: naturalPitch_def)
  have side1: "js ''_'' @ [letter] = [] \<or> \<not> durationChar (last (js ''_'' @ [letter]))"
    using nd by simp
  have side2: "[letter] = [] \<or> \<not> durationChar (last [letter])"
    using nd by simp
  have a: "parseNote ((js ''_'' @ [letter]) @ suffix) m i =
             Some \<lparr>pitch = Own (naturalPitch letter),
                   duration = (if suffix = [] then Quarter else durationOf suffix),
                   measureNum = m, index = i\<rparr>"
    unfolding parseNote_append [OF assms(2) side1] flat_lookup(1) [OF assms(1)]
    using ne by simp
  have b: "parseNote ([letter] @ suffix) m i =
             Some \<lparr>pitch = Own (naturalPitch letter),
                   duration = (if suffix = [] then Quarter else durationOf suffix),
                   measureNum = m, index = i\<rparr>"
    unfolding parseNote_append [OF assms(2) side2] flat_lookup(2) [OF assms(1)]
    using ne by simp
  have c: "map_option pitch (parseNote (js ''_D'') m i) = Some (Own (js ''D4''))"
    "map_option pitch (parseNote (js ''_d'') m i) = Some (Own (js ''D5''))"
    by (simp_all add: parser_defs)
  from a b c show ?thesis by simp
qed

theorem flat_parses_as_natural_witness:
  "js ''g'' ! 0 \<in> set (js ''DEGABdegab'') \<and> list_all durationChar (js ''/2'')
   \<and> parseNote (js ''_g/2'') 3 7 = parseNote (js ''g/2'') 3 7
   \<and> map_option pitch (parseNote (js ''_g/2'') 3 7) = Some (Own (js ''G5''))"
proof -
  have l: "js ''g'' ! 0 \<in> set (js ''DEGABdegab'')" by (simp add: js_def)
  have s: "list_all durationChar (js ''/2'')" by (simp add: js_def durationChar_def)
  have t1: "js ''_'' @ js ''g/2'' = js ''_g/2''" by (simp add: js_def)
  have t2: "[js ''g'' ! 0] @ js ''/2'' = js ''g/2''" by (simp add: js_def)
  have np: "naturalPitch (js ''g'' ! 0) = js ''G5''" by (simp add: js_def naturalPitch_def)
  from flat_parses_as_natural [OF l s, of 3 7] l s
  show ?thesis unfolding t2 t1 np by blast
qed


text \<open>
  C9 as stated fails: the table has no flat entry for the letters C and F, so the token
  "_C" is dropped.
\<close>

theorem flat_C_is_rejected:
  "parseNote (js ''_C'') 0 0 = None"
  by (simp add: parser_defs)

section \<open>Navigation: the bookmark when a sheet is loaded\<close>

lemma js_Nil: "js s = [] \<longleftrightarrow> s = []"
  by (simp add: js_def)

lemma toString_0: "toString 0 = js ''0''"
  by (simp add: toString_def digitsOf.simps js_def)

lemma loadSheet_loaded:
  assumes "obj_get sheets sheetName = Some (Own abc)" and "abc \<noteq> []"
  shows "loadSheet sheets sheetName st =
           Inr (if int (length (allNotes (parseABCNotation abc))) \<le> bookmark st
                then st\<lparr>sheet := Some (parseABCNotation abc), selectedSheet := sheetName,
                        bookmark := 0,
                        localStorage := (localStorage st)(bookmarkKey \<mapsto> js ''0''),
                        currentNoteIndex := 0\<rparr>
                else st\<lparr>sheet := Some (parseABCNotation abc), selectedSheet := sheetName,
                        currentNoteIndex := bookmark st\<rparr>)"
  using assms by (simp add: loadSheet_def Let_def saveBookmark_def toString_0)

lemma twinkle_twinkle_loaded: "\<exists>abc. obj_get sampleSheets (js ''twinkle-twinkle'') = Some (Own abc) \<and> abc \<noteq> []"
  by (simp add: obj_get_def sampleSheets_def js_def nl_def)


text \<open>
  C7 (as amended). When \<open>loadSheet\<close> loads a sheet of n notes, whatever state
  \<open>loadBookmark\<close> left: a bookmark at or above n becomes 0 and "0" is stored at once
  under the bookmark key; a bookmark in [0, n) is kept and nothing is stored; in every
  case the note index is then the bookmark.
\<close>

theorem loadSheet_resets_stale_bookmark:
  assumes "obj_get sheets sheetName = Some (Own abc)"
    and "abc \<noteq> []"
    and "n = int (length (allNotes (parseABCNotation abc)))"
  shows "(n \<le> bookmark st \<longrightarrow>
            loadSheet sheets sheetName st =
              Inr (st\<lparr>sheet := Some (parseABCNotation abc), selectedSheet := sheetName,
                      bookmark := 0,
                      localStorage := (localStorage st)(bookmarkKey \<mapsto> js ''0''),
                      currentNoteIndex := 0\<rparr>))
       \<and> (0 \<le> bookmark st \<and> bookmark st < n \<longrightarrow>
            loadSheet sheets sheetName st =
              Inr (st\<lparr>sheet := Some (parseABCNotation abc), selectedSheet := sheetName,
                      currentNoteIndex := bookmark st\<rparr>))
       \<and> (\<exists>st'. loadSheet sheets sheetName st = Inr st'
                  \<and> sheet st' = Some (parseABCNotation abc)
                  \<and> currentNoteIndex st' = bookmark st')"
  using loadSheet_loaded [OF assms(1,2), of st] assms(3) by auto


lemma simple_scale_lookup:
  "obj_get sampleSheets (js ''simple-scale'') =
     Some (Own (js ''T:Simple G Major Scale'' @ nl @ js ''C:Exercise'' @ nl @ js ''M:4/4'' @ nl @
                js ''K:G'' @ nl @ js ''G A B c | d e ^f g | g ^f e d | c B A G |''))"
  by (simp add: obj_get_def sampleSheets_def js_def nl_def)

lemma simple_scale_has_16_notes:
  "length (allNotes (parseABCNotation
      (js ''T:Simple G Major Scale'' @ nl @ js ''C:Exercise'' @ nl @ js ''M:4/4'' @ nl @
       js ''K:G'' @ nl @ js ''G A B c | d e ^f g | g ^f e d | c B A G |''))) = 16"
  by (simp add: parser_defs)


theorem loadSheet_resets_stale_bookmark_witness:
  "map_sum id bookmark
     (loadSheet sampleSheets (js ''simple-scale'')
        (loadBookmark \<lparr>sheet = None, currentNoteIndex = 0, bookmark = 0,
                       selectedSheet = js ''twinkle-twinkle'',
                       localStorage = [bookmarkKey \<mapsto> js ''16'']\<rparr>)) = Inr 0
   \<and> map_sum id currentNoteIndex
     (loadSheet sampleSheets (js ''simple-scale'')
        (loadBookmark \<lparr>sheet = None, currentNoteIndex = 0, bookmark = 0,
                       selectedSheet = js ''twinkle-twinkle'',
                       localStorage = [bookmarkKey \<mapsto> js ''16'']\<rparr>)) = Inr 0
   \<and> map_sum id localStorage
     (loadSheet sampleSheets (js ''simple-scale'')
        (loadBookmark \<lparr>sheet = None, currentNoteIndex = 0, bookmark = 0,
                       selectedSheet = js ''twinkle-twinkle'',
                       localStorage = [bookmarkKey \<mapsto> js ''16'']\<rparr>))
       = Inr [bookmarkKey \<mapsto> js ''0'']"
proof -
  define abc where "abc = js ''T:Simple G Major Scale'' @ nl @ js ''C:Exercise'' @ nl @
       js ''M:4/4'' @ nl @ js ''K:G'' @ nl @ js ''G A B c | d e ^f g | g ^f e d | c B A G |''"
  define st where "st = loadBookmark \<lparr>sheet = None, currentNoteIndex = 0, bookmark = 0,
                       selectedSheet = js ''twinkle-twinkle'',
                       localStorage = [bookmarkKey \<mapsto> js ''16'']\<rparr>"
  have g: "obj_get sampleSheets (js ''simple-scale'') = Some (Own abc)"
    unfolding abc_def by (rule simple_scale_lookup)
  have ne: "abc \<noteq> []" by (simp add: abc_def js_def)
  have n: "16 = int (length (allNotes (parseABCNotation abc)))"
    unfolding abc_def by (simp add: simple_scale_has_16_notes)
  have p: "parseInt10 (js ''16'') = Some 16"
    by (simp add: parseInt10_def js_def isWhiteSpace_def isDigit_def digitsValue_def Let_def)
  have bm: "bookmark st = 16" and ls: "localStorage st = [bookmarkKey \<mapsto> js ''16'']"
    by (simp_all add: st_def loadBookmark_def p js_Nil)
  from loadSheet_resets_stale_bookmark [OF g ne n, of st] bm
  have "loadSheet sampleSheets (js ''simple-scale'') st =
          Inr (st\<lparr>sheet := Some (parseABCNotation abc), selectedSheet := js ''simple-scale'',
                  bookmark := 0,
                  localStorage := (localStorage st)(bookmarkKey \<mapsto> js ''0''),
                  currentNoteIndex := 0\<rparr>)"
    by simp
  then show ?thesis
    unfolding st_def [symmetric] by (simp add: ls)
qed


text \<open>
  C7 as stated fails for a stored value below the range: with "-5" in the store, loading
  the first sheet leaves the bookmark and the note index at -5 and the store as it was.
\<close>

theorem negative_bookmark_is_not_reset:
  "map_sum id bookmark
     (connectedCallback \<lparr>sheet = None, currentNoteIndex = 0, bookmark = 0,
                          selectedSheet = js ''twinkle-twinkle'',
                          localStorage = [bookmarkKey \<mapsto> js ''-5'']\<rparr>) = Inr (- 5)
   \<and> map_sum id currentNoteIndex
     (connectedCallback \<lparr>sheet = None, currentNoteIndex = 0, bookmark = 0,
                          selectedSheet = js ''twinkle-twinkle'',
                          localStorage = [bookmarkKey \<mapsto> js ''-5'']\<rparr>) = Inr (- 5)
   \<and> map_sum id localStorage
     (connectedCallback \<lparr>sheet = None, currentNoteIndex = 0, bookmark = 0,
                          selectedSheet = js ''twinkle-twinkle'',
                          localStorage = [bookmarkKey \<mapsto> js ''-5'']\<rparr>)
       = Inr [bookmarkKey \<mapsto> js ''-5'']"
proof -
  define st0 where "st0 = \<lparr>sheet = None, currentNoteIndex = 0, bookmark = 0,
                          selectedSheet = js ''twinkle-twinkle'',
                          localStorage = [bookmarkKey \<mapsto> js ''-5'']\<rparr>"
  obtain abc where abc: "obj_get sampleSheets (js ''twinkle-twinkle'') = Some (Own abc)" "abc \<noteq> []"
    using twinkle_twinkle_loaded by blast
  have p: "parseInt10 (js ''-5'') = Some (- 5)"
    by (simp add: parseInt10_def js_def isWhiteSpace_def isDigit_def digitsValue_def Let_def)
  have lb: "loadBookmark st0 = st0\<lparr>bookmark := - 5\<rparr>"
    by (simp add: loadBookmark_def st0_def p js_Nil)
  have sel: "selectedSheet (loadBookmark st0) = js ''twinkle-twinkle''"
    by (simp add: lb) (simp add: st0_def)
  have "connectedCallback st0 =
          Inr (st0\<lparr>bookmark := - 5, sheet := Some (parseABCNotation abc),
                   selectedSheet := js ''twinkle-twinkle'', currentNoteIndex := - 5\<rparr>)"
    unfolding connectedCallback_def Let_def sel loadSheet_loaded [OF abc]
    by (simp add: lb)
  then show ?thesis
    unfolding st0_def [symmetric] by (simp add: st0_def)
qed

section \<open>Tuning: a target outside the table\<close>






section \<open>Note naming\<close>





lemma noteIndex_double_mod: "((r mod 12) + 12) mod 12 = r mod (12::int)"
  by simp


















section \<open>Tuning: a target in the table\<close>







end
